theory Spec2Isabelle
  imports Main "HOL-Library.Sublist" "HOL-Library.Multiset"
begin

section \<open>Strings\<close>

text \<open>
  A Python \<open>str\<close> is modelled as a \<open>string\<close>, a list of characters, each a
  code point below 256.  \<open>lower\<close> is \<open>str.lower\<close> on these: the letters
  \<open>A\<close> to \<open>Z\<close> and the accented capitals 192 to 222 (215, the multiplication
  sign, is no letter) move up by 32, every other character stays.  No theorem below
  looks inside \<open>lower\<close>.
\<close>

definition lower_char :: "char \<Rightarrow> char" where
  "lower_char c =
     (let n = (of_char c :: nat)
      in if (65 \<le> n \<and> n \<le> 90) \<or> (192 \<le> n \<and> n \<le> 222 \<and> n \<noteq> 215)
         then char_of (n + 32) else c)"

definition lower :: "string \<Rightarrow> string" where
  "lower s = map lower_char s"

text \<open>\<open>sub in s\<close> on strings: \<open>sub\<close> occurs in \<open>s\<close> as a contiguous block.\<close>

fun str_in :: "string \<Rightarrow> string \<Rightarrow> bool" where
  "str_in sub [] = (sub = [])"
| "str_in sub (c # s) = (prefix sub (c # s) \<or> str_in sub s)"

section \<open>The keyword filter\<close>

text \<open>An article is the tuple \<open>(title, link)\<close>; \<open>news[0]\<close> is its title.\<close>

type_synonym news = "string \<times> string"

text \<open>
  \<^verbatim>\<open>
  def filter_news_by_keyword(news_list, keyword=None):
      if not keyword:
          return news_list
      keyword_lower = keyword.lower()
      filtered_news = [news for news in news_list if keyword_lower in news[0].lower()]
      return filtered_news
  \<close>
  \<open>not keyword\<close> holds for \<open>None\<close> and for the empty string.
\<close>

definition filter_news_by_keyword :: "news list \<Rightarrow> string option \<Rightarrow> news list" where
  "filter_news_by_keyword news_list keyword =
     (case keyword of
        None \<Rightarrow> news_list
      | Some k \<Rightarrow>
          if k = [] then news_list
          else
            let keyword_lower = lower k
            in filter (\<lambda>news. str_in keyword_lower (lower (fst news))) news_list)"

section \<open>Exceptions, the network and the effects\<close>

text \<open>
  The exceptions the program meets, as values.  \<open>RequestException\<close> is
  \<open>requests.exceptions.RequestException\<close> with its subclasses (\<open>HTTPError\<close>,
  \<open>ConnectionError\<close>, \<open>Timeout\<close>, ...); \<open>OtherException\<close> is an \<open>Exception\<close>
  of any other class, named by its argument (\<open>ValueError\<close>, or \<open>LocationParseError\<close>
  of urllib3, which \<open>requests\<close> lets through).  A handler for \<open>Exception\<close> catches
  both, a handler for \<open>RequestException\<close> only the first.  A function that may raise
  returns \<open>exn + 'a\<close>, with \<open>Inl\<close> the exception raised.
\<close>

datatype exn = RequestException string | OtherException string

text \<open>
  The response object of \<open>requests\<close>, as far as the program reads it, and the
  network: \<open>net url attempt\<close> is what \<open>requests.get(url)\<close> does at the attempt
  numbered \<open>attempt\<close> for that URL; it returns a response (\<open>Inr\<close>) or raises an
  exception of either kind (\<open>Inl\<close>).  \<open>raise_for_status\<close> raises \<open>HTTPError\<close>, a
  \<open>RequestException\<close>, for the status codes 400 to 599.
\<close>

record response =
  status_code :: int
  resp_text :: string

type_synonym network = "string \<Rightarrow> int \<Rightarrow> exn + response"

definition raise_for_status :: "response \<Rightarrow> exn + unit" where
  "raise_for_status r =
     (if 400 \<le> status_code r \<and> status_code r < 600
      then Inl (RequestException ''HTTPError'') else Inr ())"

text \<open>
  What a call does besides returning: the calls of \<open>requests.get\<close> it makes, the
  pauses it makes and the lines it prints, in order.
\<close>

datatype event =
    Get string
  | Sleep int
  | Print_attempt_failed string int int exn
  | Print_gave_up string
  | Print_parse_error exn

fun gets :: "event list \<Rightarrow> string list" where
  "gets [] = []"
| "gets (Get url # evs) = url # gets evs"
| "gets (ev # evs) = gets evs"

section \<open>Formatting and sleeping\<close>

text \<open>
  An integer in an f-string, as in \<open>f"{page}"\<close>: its decimal digits, after a
  minus sign when it is negative.  The conversion raises \<open>ValueError\<close> when the
  number has more digits than the interpreter allows, 4300 unless the limit is changed,
  which the program does not do.
\<close>

function str_nat :: "nat \<Rightarrow> string" where
  "str_nat n = (if n < 10 then [char_of (48 + n)] else str_nat (n div 10) @ [char_of (48 + n mod 10)])"
  by pat_completeness auto
termination
  by (relation "measure (\<lambda>n. n)") auto

declare str_nat.simps [simp del]

definition int_max_str_digits :: nat where
  "int_max_str_digits = 4300"

definition str_int :: "int \<Rightarrow> exn + string" where
  "str_int i =
     (if 10 ^ int_max_str_digits \<le> \<bar>i\<bar> then Inl (OtherException ''ValueError'')
      else Inr ((if i < 0 then ''-'' else '''') @ str_nat (nat \<bar>i\<bar>)))"

text \<open>
  \<open>time.sleep(secs)\<close> for an integer: it raises \<open>OverflowError\<close> when the delay
  does not fit the clock of the interpreter (64 bits of nanoseconds, that is more than
  9223372036 seconds in either direction), \<open>ValueError\<close> when the delay is negative,
  and returns otherwise.
\<close>

definition time_sleep :: "int \<Rightarrow> exn + unit" where
  "time_sleep secs =
     (if secs < - 9223372036 \<or> 9223372036 < secs then Inl (OtherException ''OverflowError'')
      else if secs < 0 then Inl (OtherException ''ValueError'')
      else Inr ())"

section \<open>The fetcher\<close>

text \<open>
  \<^verbatim>\<open>
  def fetch_html(url, max_retries=3, retry_delay=2):
      for attempt in range(max_retries):
          try:
              response = requests.get(url)
              response.raise_for_status()
              return response.text
          except requests.exceptions.RequestException as e:
              print(f"... {url} ... ({attempt + 1}/{max_retries}): {e}")
              if attempt < max_retries - 1:
                  time.sleep(retry_delay)
      print(f"... {url} ...")
      return None
  \<close>
  \<open>fetch_html_try\<close> is the body of the \<open>try\<close>.  The loop runs over
  \<open>range(max_retries)\<close>, the list \<open>[0..max_retries - 1]\<close>, which is empty
  when \<open>max_retries \<le> 0\<close>.  The handler catches \<open>RequestException\<close> only:
  any other exception leaves the function.  What is raised inside the handler leaves
  the function too: by the f-string of the message (\<open>print_attempt_failed\<close>), which
  formats \<open>attempt + 1\<close> and \<open>max_retries\<close>, and by \<open>time.sleep\<close>.
\<close>

definition fetch_html_try :: "network \<Rightarrow> string \<Rightarrow> int \<Rightarrow> exn + string" where
  "fetch_html_try net url attempt =
     (case net url attempt of
        Inl e \<Rightarrow> Inl e
      | Inr response \<Rightarrow>
          (case raise_for_status response of
             Inl e \<Rightarrow> Inl e
           | Inr u \<Rightarrow> Inr (resp_text response)))"

definition print_attempt_failed :: "string \<Rightarrow> int \<Rightarrow> int \<Rightarrow> exn \<Rightarrow> exn + event" where
  "print_attempt_failed url attempt max_retries e =
     (case str_int (attempt + 1) of
        Inl x \<Rightarrow> Inl x
      | Inr n \<Rightarrow>
          (case str_int max_retries of
             Inl x \<Rightarrow> Inl x
           | Inr m \<Rightarrow> Inr (Print_attempt_failed url (attempt + 1) max_retries e)))"

fun fetch_html_loop ::
  "network \<Rightarrow> string \<Rightarrow> int \<Rightarrow> int \<Rightarrow> int list \<Rightarrow> event list \<times> (exn + string option)" where
  "fetch_html_loop net url max_retries retry_delay [] = ([Print_gave_up url], Inr None)"
| "fetch_html_loop net url max_retries retry_delay (attempt # rest) =
     (case fetch_html_try net url attempt of
        Inr body \<Rightarrow> ([Get url], Inr (Some body))
      | Inl (RequestException e) \<Rightarrow>
          (case print_attempt_failed url attempt max_retries (RequestException e) of
             Inl x \<Rightarrow> ([Get url], Inl x)
           | Inr line \<Rightarrow>
               if attempt < max_retries - 1 then
                 (case time_sleep retry_delay of
                    Inl x \<Rightarrow> ([Get url, line], Inl x)
                  | Inr u \<Rightarrow>
                      (case fetch_html_loop net url max_retries retry_delay rest of
                         (evs, r) \<Rightarrow> ([Get url, line, Sleep retry_delay] @ evs, r)))
               else
                 (case fetch_html_loop net url max_retries retry_delay rest of
                    (evs, r) \<Rightarrow> ([Get url, line] @ evs, r)))
      | Inl (OtherException e) \<Rightarrow> ([Get url], Inl (OtherException e)))"

definition fetch_html ::
  "network \<Rightarrow> string \<Rightarrow> int \<Rightarrow> int \<Rightarrow> event list \<times> (exn + string option)" where
  "fetch_html net url max_retries retry_delay =
     fetch_html_loop net url max_retries retry_delay [0..max_retries - 1]"

section \<open>The extractor\<close>

text \<open>
  The document tree that \<open>BeautifulSoup(html, 'html.parser')\<close> builds.  A node is a
  tag, with its name, the list of its classes (\<open>attrs['class']\<close>), its other attributes
  (a dictionary, written as an association list) and its children, or a string: a
  \<open>NavigableString\<close> (ordinary text), a \<open>CData\<close> section, or a string of any other
  class (\<open>Comment\<close>, \<open>Script\<close>, \<open>Stylesheet\<close>, \<open>TemplateString\<close>, \<open>Doctype\<close>,
  ...), here \<open>OtherString\<close>.  The parser itself is a parameter \<open>parser\<close>, which
  returns the tree or raises.
\<close>

datatype node =
    NavigableString string
  | CData string
  | OtherString string
  | Tag string "string list" "(string \<times> string) list" "node list"

type_synonym html_parser = "string \<Rightarrow> exn + node"

fun attrs :: "node \<Rightarrow> (string \<times> string) list" where
  "attrs (Tag name classes as kids) = as"
| "attrs (NavigableString s) = []"
| "attrs (CData s) = []"
| "attrs (OtherString s) = []"

text \<open>All nodes below a node, in document order.\<close>

fun descendants :: "node \<Rightarrow> node list" where
  "descendants (Tag name classes as kids) = concat (map (\<lambda>kid. kid # descendants kid) kids)"
| "descendants (NavigableString s) = []"
| "descendants (CData s) = []"
| "descendants (OtherString s) = []"

text \<open>\<open>soup.select('h3.c-title')\<close>: the \<open>h3\<close> tags of class \<open>c-title\<close>.\<close>

fun is_h3_c_title :: "node \<Rightarrow> bool" where
  "is_h3_c_title (Tag name classes as kids) = (name = ''h3'' \<and> ''c-title'' \<in> set classes)"
| "is_h3_c_title (NavigableString s) = False"
| "is_h3_c_title (CData s) = False"
| "is_h3_c_title (OtherString s) = False"

definition select_h3_c_title :: "node \<Rightarrow> node list" where
  "select_h3_c_title soup = filter is_h3_c_title (descendants soup)"

text \<open>\<open>item.find('a', class_='c-title__link')\<close>: the first such tag below \<open>item\<close>, or \<open>None\<close>.\<close>

fun is_a_c_title_link :: "node \<Rightarrow> bool" where
  "is_a_c_title_link (Tag name classes as kids) = (name = ''a'' \<and> ''c-title__link'' \<in> set classes)"
| "is_a_c_title_link (NavigableString s) = False"
| "is_a_c_title_link (CData s) = False"
| "is_a_c_title_link (OtherString s) = False"

definition find_a_c_title_link :: "node \<Rightarrow> node option" where
  "find_a_c_title_link item = find is_a_c_title_link (descendants item)"

text \<open>
  \<open>a_tag.get_text(strip=True)\<close>: the strings below the tag whose class is
  \<open>NavigableString\<close> or \<open>CData\<close> (the strings of the other classes are left out),
  each stripped of the white space at its ends, the empty ones dropped, joined with
  nothing between them.  \<open>is_space\<close> is \<open>str.isspace\<close> on the code points below 256.
\<close>

definition is_space :: "char \<Rightarrow> bool" where
  "is_space c = ((of_char c :: nat) \<in> {9, 10, 11, 12, 13, 28, 29, 30, 31, 32, 133, 160})"

definition strip :: "string \<Rightarrow> string" where
  "strip s = rev (dropWhile is_space (rev (dropWhile is_space s)))"

fun strings :: "node list \<Rightarrow> string list" where
  "strings [] = []"
| "strings (NavigableString s # ns) = s # strings ns"
| "strings (CData s # ns) = s # strings ns"
| "strings (OtherString s # ns) = strings ns"
| "strings (Tag name classes as kids # ns) = strings ns"

definition get_text_strip :: "node \<Rightarrow> string" where
  "get_text_strip tag = concat (filter (\<lambda>s. s \<noteq> []) (map strip (strings (descendants tag))))"

text \<open>
  \<^verbatim>\<open>
  def parse_news(html):
      news_list = []
      try:
          soup = BeautifulSoup(html, 'html.parser')
          for item in soup.select('h3.c-title'):
              a_tag = item.find('a', class_='c-title__link')
              if a_tag and 'href' in a_tag.attrs:
                  title = a_tag.get_text(strip=True)
                  link = a_tag['href']
                  news_list.append((title, link))
          return news_list
      except Exception as e:
          print(f"...: {e}")
          return []
  \<close>
  \<open>parse_news_loop\<close> is the \<open>for\<close> loop, \<open>parse_news_try\<close> the body of the
  \<open>try\<close>.  A tag is true whatever it contains, so \<open>a_tag\<close> is false only when it
  is \<open>None\<close>.
\<close>

fun parse_news_loop :: "news list \<Rightarrow> node list \<Rightarrow> news list" where
  "parse_news_loop news_list [] = news_list"
| "parse_news_loop news_list (item # items) =
     (case find_a_c_title_link item of
        None \<Rightarrow> parse_news_loop news_list items
      | Some a_tag \<Rightarrow>
          (case map_of (attrs a_tag) ''href'' of
             None \<Rightarrow> parse_news_loop news_list items
           | Some link \<Rightarrow>
               let title = get_text_strip a_tag
               in parse_news_loop (news_list @ [(title, link)]) items))"

definition parse_news_try :: "html_parser \<Rightarrow> string \<Rightarrow> exn + news list" where
  "parse_news_try parser html =
     (case parser html of
        Inl e \<Rightarrow> Inl e
      | Inr soup \<Rightarrow> Inr (parse_news_loop [] (select_h3_c_title soup)))"

definition parse_news :: "html_parser \<Rightarrow> string \<Rightarrow> event list \<times> (exn + news list)" where
  "parse_news parser html =
     (case parse_news_try parser html of
        Inr news_list \<Rightarrow> ([], Inr news_list)
      | Inl e \<Rightarrow> ([Print_parse_error e], Inr []))"

section \<open>The page task\<close>

text \<open>
  \<^verbatim>\<open>
  def fetch_and_parse_page(page, base_url):
      url = base_url if page == 1 else f"{base_url}page/{page}/"
      html = fetch_html(url)
      if html:
          return parse_news(html)
      return []
  \<close>
  \<open>page_url\<close> is the first statement.  \<open>fetch_html(url)\<close> runs with the defaults
  \<open>max_retries=3\<close> and \<open>retry_delay=2\<close>.  \<open>if html\<close> is false for \<open>None\<close>
  and for the empty string.  The function has no handler of its own: what
  \<open>fetch_html\<close> or the f-string raises leaves it.
\<close>

definition page_url :: "int \<Rightarrow> string \<Rightarrow> exn + string" where
  "page_url page base_url =
     (if page = 1 then Inr base_url
      else case str_int page of
             Inl e \<Rightarrow> Inl e
           | Inr digits \<Rightarrow> Inr (base_url @ ''page/'' @ digits @ ''/''))"

definition fetch_and_parse_page ::
  "network \<Rightarrow> html_parser \<Rightarrow> int \<Rightarrow> string \<Rightarrow> event list \<times> (exn + news list)" where
  "fetch_and_parse_page net parser page base_url =
     (case page_url page base_url of
        Inl e \<Rightarrow> ([], Inl e)
      | Inr url \<Rightarrow>
          (case fetch_html net url 3 2 of
             (evs, Inl e) \<Rightarrow> (evs, Inl e)
           | (evs, Inr None) \<Rightarrow> (evs, Inr [])
           | (evs, Inr (Some html)) \<Rightarrow>
               if html \<noteq> [] then
                 (case parse_news parser html of (evs', r) \<Rightarrow> (evs @ evs', r))
               else (evs, Inr [])))"

section \<open>The orchestrator\<close>

definition NEWS_URL_CONSTANT :: string where
  "NEWS_URL_CONSTANT = ''https://www.artnews.com/c/art-news/market/''"

definition NEWS_URL_1 :: string where
  "NEWS_URL_1 = ''https://www.artnews.com/art-news/market/''"

definition START_PAGE :: int where
  "START_PAGE = 2"

definition END_PAGE :: int where
  "END_PAGE = 100"

text \<open>
  \<^verbatim>\<open>
  urls_to_fetch = [
      (page, NEWS_URL_CONSTANT) for page in range(START_PAGE, END_PAGE + 1)
  ] + [
      (page, NEWS_URL_1) for page in range(START_PAGE, END_PAGE + 1)
  ]
  \<close>
  \<open>worklist\<close> is this list for any first and last page; \<open>urls_to_fetch\<close> is the
  one the program builds.
\<close>

definition worklist :: "int \<Rightarrow> int \<Rightarrow> (int \<times> string) list" where
  "worklist start_page end_page =
     map (\<lambda>page. (page, NEWS_URL_CONSTANT)) [start_page..end_page]
     @ map (\<lambda>page. (page, NEWS_URL_1)) [start_page..end_page]"

definition urls_to_fetch :: "(int \<times> string) list" where
  "urls_to_fetch = worklist START_PAGE END_PAGE"

text \<open>
  \<^verbatim>\<open>
  future_to_url = {
      executor.submit(fetch_and_parse_page, page, base_url): (page, base_url)
      for page, base_url in urls_to_fetch
  }
  for future in as_completed(future_to_url):
      page, base_url = future_to_url[future]
      try:
          news_list = future.result()
          all_news.extend(news_list)
      except Exception as exc:
          print(f'{page} ...: {exc}')
      finally:
          pbar.update(1)
  \<close>
  A future is modelled by the pair \<open>future_to_url\<close> holds for it and by what
  \<open>future.result()\<close> gives: the list the task returned, or the exception it raised.
  \<open>task\<close> is the function the pool runs (\<open>page_task\<close> in the program).
  \<open>as_completed\<close> yields the submitted futures, each once, in the order in which
  they finish: the loop \<open>collect\<close> runs over any list \<open>completed\<close> with
  \<open>mset completed = mset (submit task urls)\<close>.
\<close>

type_synonym future = "(int \<times> string) \<times> (exn + news list)"

definition page_task :: "network \<Rightarrow> html_parser \<Rightarrow> int \<Rightarrow> string \<Rightarrow> exn + news list" where
  "page_task net parser page base_url = snd (fetch_and_parse_page net parser page base_url)"

definition submit :: "(int \<Rightarrow> string \<Rightarrow> exn + news list) \<Rightarrow> (int \<times> string) list \<Rightarrow> future list" where
  "submit task urls = map (\<lambda>(page, base_url). ((page, base_url), task page base_url)) urls"

record progress =
  all_news :: "news list"
  pbar :: nat
  printed :: "(int \<times> exn) list"

fun collect :: "progress \<Rightarrow> future list \<Rightarrow> progress" where
  "collect st [] = st"
| "collect st (((page, base_url), Inr news_list) # futures) =
     collect (st\<lparr>all_news := all_news st @ news_list, pbar := pbar st + 1\<rparr>) futures"
| "collect st (((page, base_url), Inl exc) # futures) =
     collect (st\<lparr>printed := printed st @ [(page, exc)], pbar := pbar st + 1\<rparr>) futures"

definition main_collect :: "future list \<Rightarrow> progress" where
  "main_collect completed = collect \<lparr>all_news = [], pbar = 0, printed = []\<rparr> completed"

section \<open>Properties of the keyword filter\<close>

lemma str_in_iff: "str_in sub s \<longleftrightarrow> (\<exists>ps ss. s = ps @ sub @ ss)"
proof (induction s)
  case Nil
  show ?case by auto
next
  case (Cons c s)
  show ?case
  proof
    assume "str_in sub (c # s)"
    then consider "prefix sub (c # s)" | "str_in sub s" by auto
    then show "\<exists>ps ss. c # s = ps @ sub @ ss"
    proof cases
      case 1
      then obtain ss where "c # s = sub @ ss" by (auto simp: prefix_def)
      then have "c # s = [] @ sub @ ss" by simp
      then show ?thesis by blast
    next
      case 2
      with Cons.IH obtain ps ss where "s = ps @ sub @ ss" by blast
      then have "c # s = (c # ps) @ sub @ ss" by simp
      then show ?thesis by blast
    qed
  next
    assume "\<exists>ps ss. c # s = ps @ sub @ ss"
    then obtain ps ss where eq: "c # s = ps @ sub @ ss" by blast
    show "str_in sub (c # s)"
    proof (cases ps)
      case Nil
      with eq have "prefix sub (c # s)" by (simp add: prefix_def)
      then show ?thesis by simp
    next
      case (Cons p ps')
      with eq have "s = ps' @ sub @ ss" by simp
      with Cons.IH have "str_in sub s" by blast
      then show ?thesis by simp
    qed
  qed
qed

text \<open>
  C5. With no keyword (\<open>None\<close>) or the empty keyword, the filter returns the list
  it was given: the same elements in the same order, hence the same count.
\<close>

theorem filter_no_keyword_unchanged:
  "filter_news_by_keyword L None = L \<and> filter_news_by_keyword L (Some '''') = L"
  by (simp add: filter_news_by_keyword_def)

text \<open>
  C6. For a non-empty keyword \<open>k\<close> the filter returns a subsequence of \<open>L\<close>, in
  the order of \<open>L\<close>: it keeps exactly the entries whose lower-cased title contains the
  lower-cased keyword as a contiguous block (\<open>sublist\<close>), each as often as it occurs
  in \<open>L\<close>.
\<close>

theorem filter_keyword_subseq_iff:
  assumes "k \<noteq> []"
  shows "subseq (filter_news_by_keyword L (Some k)) L \<and>
         filter_news_by_keyword L (Some k) =
           filter (\<lambda>news. sublist (lower k) (lower (fst news))) L \<and>
         (\<forall>news. news \<in> set (filter_news_by_keyword L (Some k)) \<longleftrightarrow>
                 news \<in> set L \<and> sublist (lower k) (lower (fst news)))"
proof -
  let ?P = "\<lambda>news :: news. sublist (lower k) (lower (fst news))"
  have eq: "filter_news_by_keyword L (Some k) = filter ?P L"
    using assms by (simp add: filter_news_by_keyword_def str_in_iff sublist_def)
  have "subseq (filter ?P L) L" by simp
  moreover have "\<forall>news. news \<in> set (filter ?P L) \<longleftrightarrow> news \<in> set L \<and> ?P news" by simp
  ultimately show ?thesis unfolding eq by simp
qed

theorem filter_keyword_subseq_iff_witness:
  "subseq
     (filter_news_by_keyword
        [(''Art Market Rises'', ''/a''), (''Auction news'', ''/b''), (''The MARKET dips'', ''/c'')]
        (Some ''market''))
     [(''Art Market Rises'', ''/a''), (''Auction news'', ''/b''), (''The MARKET dips'', ''/c'')] \<and>
   filter_news_by_keyword
     [(''Art Market Rises'', ''/a''), (''Auction news'', ''/b''), (''The MARKET dips'', ''/c'')]
     (Some ''market'') =
   [(''Art Market Rises'', ''/a''), (''The MARKET dips'', ''/c'')]"
proof -
  have k: "''market'' \<noteq> []" by simp
  have "filter_news_by_keyword
     [(''Art Market Rises'', ''/a''), (''Auction news'', ''/b''), (''The MARKET dips'', ''/c'')]
     (Some ''market'') =
   [(''Art Market Rises'', ''/a''), (''The MARKET dips'', ''/c'')]"
    by code_simp
  with filter_keyword_subseq_iff [OF k,
      of "[(''Art Market Rises'', ''/a''), (''Auction news'', ''/b''), (''The MARKET dips'', ''/c'')]"]
  show ?thesis by blast
qed

text \<open>
  C10. Filtering twice with the same keyword, \<open>None\<close> and the empty string
  included, gives what filtering once gives.
\<close>

theorem filter_idempotent:
  "filter_news_by_keyword (filter_news_by_keyword L k) k = filter_news_by_keyword L k"
proof (cases k)
  case None
  then show ?thesis by (simp add: filter_news_by_keyword_def)
next
  case (Some kw)
  then show ?thesis by (cases "kw = []") (simp_all add: filter_news_by_keyword_def)
qed

section \<open>Properties of formatting and sleeping\<close>

text \<open>
  \<open>str_nat\<close> writes a number in decimal: its characters are digits, the first is
  \<open>0\<close> only for the number 0, and reading them back gives the number.
\<close>

lemma digit_less_256: "(48 + n mod 10) mod 256 = 48 + n mod (10::nat)"
proof -
  have "n mod 10 < 10" by simp
  then have "48 + n mod 10 < 256" by linarith
  then show ?thesis by (rule mod_less)
qed

lemma digit_char_iff:
  "c \<in> set ''0123456789'' \<longleftrightarrow> 48 \<le> (of_char c :: nat) \<and> (of_char c :: nat) \<le> 57"
proof
  assume "c \<in> set ''0123456789''"
  then show "48 \<le> (of_char c :: nat) \<and> (of_char c :: nat) \<le> 57" by auto
next
  assume "48 \<le> (of_char c :: nat) \<and> (of_char c :: nat) \<le> 57"
  then have "(of_char c :: nat) = 48 \<or> (of_char c :: nat) = 49 \<or> (of_char c :: nat) = 50 \<or>
      (of_char c :: nat) = 51 \<or> (of_char c :: nat) = 52 \<or> (of_char c :: nat) = 53 \<or>
      (of_char c :: nat) = 54 \<or> (of_char c :: nat) = 55 \<or> (of_char c :: nat) = 56 \<or>
      (of_char c :: nat) = 57"
    by arith
  then have "(of_char c :: nat) \<in> of_char ` set ''0123456789''" by auto
  then obtain c' where c': "c' \<in> set ''0123456789''" and "(of_char c :: nat) = of_char c'"
    by blast
  then have "c = c'" by (simp only: of_char_eq_iff)
  with c' show "c \<in> set ''0123456789''" by simp
qed

lemma str_nat_small: "n < 10 \<Longrightarrow> str_nat n = [char_of (48 + n)]"
  by (subst str_nat.simps) simp

lemma str_nat_big: "\<not> n < 10 \<Longrightarrow> str_nat n = str_nat (n div 10) @ [char_of (48 + n mod 10)]"
  by (subst str_nat.simps) simp

lemma str_nat_zero: "str_nat 0 = ''0''"
  by code_simp

lemma str_nat_nonempty: "str_nat n \<noteq> []"
  by (cases "n < 10") (simp_all add: str_nat_small str_nat_big)

lemma str_nat_decimal:
  "foldl (\<lambda>acc c. 10 * acc + (of_char c - 48)) 0 (str_nat n) = n"
proof (induction n rule: str_nat.induct)
  case (1 n)
  show ?case
  proof (cases "n < 10")
    case True
    then show ?thesis by (simp add: str_nat_small)
  next
    case False
    with 1 have IH: "foldl (\<lambda>acc c. 10 * acc + (of_char c - 48)) 0 (str_nat (n div 10)) = n div 10"
      by simp
    from False IH show ?thesis by (simp add: str_nat_big digit_less_256)
  qed
qed

lemma str_nat_digits: "set (str_nat n) \<subseteq> set ''0123456789''"
proof (induction n rule: str_nat.induct)
  case (1 n)
  have last: "char_of (48 + n mod 10) \<in> set ''0123456789''"
  proof -
    have "n mod 10 \<le> 9" using mod_less_divisor [of 10 n] by linarith
    then show ?thesis by (simp only: digit_char_iff of_char_of digit_less_256) simp
  qed
  show ?case
  proof (cases "n < 10")
    case True
    with last show ?thesis by (simp add: str_nat_small)
  next
    case False
    with 1 have "set (str_nat (n div 10)) \<subseteq> set ''0123456789''" by simp
    with False last show ?thesis by (simp add: str_nat_big)
  qed
qed

lemma str_nat_leading_zero:
  assumes "hd (str_nat n) = CHR ''0''"
  shows "str_nat n = ''0''"
  using assms
proof (induction n rule: str_nat.induct)
  case (1 n)
  show ?case
  proof (cases "n < 10")
    case True
    with "1.prems" have "char_of (48 + n) = CHR ''0''" by (simp add: str_nat_small)
    then have "(of_char (char_of (48 + n)) :: nat) = of_char CHR ''0''" by simp
    with True have "n = 0" by simp
    then show ?thesis by (simp add: str_nat_zero)
  next
    case False
    with "1.prems" have "hd (str_nat (n div 10)) = CHR ''0''"
      by (simp add: str_nat_big str_nat_nonempty)
    with False 1 have "str_nat (n div 10) = ''0''" by simp
    then have "foldl (\<lambda>acc c. 10 * acc + (of_char c - 48)) 0 (str_nat (n div 10)) = (0::nat)"
      by simp
    then have "n div 10 = 0" by (simp only: str_nat_decimal)
    with False show ?thesis by simp
  qed
qed

text \<open>The limit on the digits, without writing the power out.\<close>

lemma below_limit:
  assumes "\<bar>i\<bar> < 10 ^ k" and "k \<le> int_max_str_digits"
  shows "\<bar>i\<bar> < (10::int) ^ int_max_str_digits"
proof -
  from assms(2) have "(10::int) ^ k \<le> 10 ^ int_max_str_digits"
    by (intro power_increasing) simp_all
  with assms(1) show ?thesis by linarith
qed

lemma one_digit_below_limit:
  assumes "\<bar>i\<bar> < 10"
  shows "\<bar>i\<bar> < (10::int) ^ int_max_str_digits"
proof (rule below_limit [where k = 1])
  from assms show "\<bar>i\<bar> < 10 ^ 1" by simp
  show "1 \<le> int_max_str_digits" by (simp add: int_max_str_digits_def)
qed

lemma limit_not_one: "(10::int) ^ int_max_str_digits \<le> \<bar>page\<bar> \<Longrightarrow> page \<noteq> 1"
proof
  assume "(10::int) ^ int_max_str_digits \<le> \<bar>page\<bar>" and "page = 1"
  then have "(10::int) ^ int_max_str_digits \<le> 1" by simp
  moreover have "0 < int_max_str_digits" by (simp add: int_max_str_digits_def)
  then have "(1::int) < 10 ^ int_max_str_digits" by (intro one_less_power) simp_all
  ultimately show False by linarith
qed

lemma str_int_below_limit:
  assumes "\<bar>i\<bar> < 10 ^ int_max_str_digits"
  shows "str_int i = Inr ((if i < 0 then ''-'' else '''') @ str_nat (nat \<bar>i\<bar>))"
  using assms by (simp add: str_int_def)

lemma str_int_above_limit:
  assumes "10 ^ int_max_str_digits \<le> \<bar>i\<bar>"
  shows "str_int i = Inl (OtherException ''ValueError'')"
  using assms by (simp add: str_int_def)

lemma str_int_small:
  assumes "\<bar>i\<bar> < 10"
  shows "\<exists>digits. str_int i = Inr digits"
  using one_digit_below_limit [OF assms] by (simp add: str_int_below_limit)



section \<open>Properties of the fetcher\<close>




lemma gets_append: "gets (xs @ ys) = gets xs @ gets ys"
  by (induction xs rule: gets.induct) simp_all

lemma print_attempt_failed_Inr:
  assumes "print_attempt_failed url a m e = Inr line"
  shows "line = Print_attempt_failed url (a + 1) m e"
  using assms by (auto simp: print_attempt_failed_def split: sum.splits)


text \<open>The ways one turn of the loop can go.\<close>

lemma fetch_html_loop_ok:
  assumes "fetch_html_try net url a = Inr body"
  shows "fetch_html_loop net url m d (a # as) = ([Get url], Inr (Some body))"
  using assms by simp

lemma fetch_html_loop_other:
  assumes "fetch_html_try net url a = Inl (OtherException e)"
  shows "fetch_html_loop net url m d (a # as) = ([Get url], Inl (OtherException e))"
  using assms by simp

lemma fetch_html_loop_print_raises:
  assumes "fetch_html_try net url a = Inl (RequestException e)"
    and "print_attempt_failed url a m (RequestException e) = Inl x"
  shows "fetch_html_loop net url m d (a # as) = ([Get url], Inl x)"
  using assms by simp

lemma fetch_html_loop_sleep_raises:
  assumes "fetch_html_try net url a = Inl (RequestException e)"
    and "print_attempt_failed url a m (RequestException e) = Inr line"
    and "a < m - 1" and "time_sleep d = Inl x"
  shows "fetch_html_loop net url m d (a # as) =
           ([Get url, Print_attempt_failed url (a + 1) m (RequestException e)], Inl x)"
  using assms print_attempt_failed_Inr [OF assms(2)] by simp

lemma fetch_html_loop_retry:
  assumes "fetch_html_try net url a = Inl (RequestException e)"
    and "print_attempt_failed url a m (RequestException e) = Inr line"
    and "a < m - 1 \<longrightarrow> time_sleep d = Inr ()"
  shows "gets (fst (fetch_html_loop net url m d (a # as))) =
           url # gets (fst (fetch_html_loop net url m d as))"
    and "snd (fetch_html_loop net url m d (a # as)) = snd (fetch_html_loop net url m d as)"
  using assms print_attempt_failed_Inr [OF assms(2)]
  by (cases "fetch_html_loop net url m d as"; simp add: gets_append)+

lemma fetch_html_loop_turn:
  obtains (ok) body where "fetch_html_try net url a = Inr body"
      and "fetch_html_loop net url m d (a # as) = ([Get url], Inr (Some body))"
  | (other) e where "fetch_html_try net url a = Inl (OtherException e)"
      and "fetch_html_loop net url m d (a # as) = ([Get url], Inl (OtherException e))"
  | (handler_raises) e x where "fetch_html_try net url a = Inl (RequestException e)"
      and "(\<forall>line. print_attempt_failed url a m (RequestException e) \<noteq> Inr line) \<or>
           time_sleep d \<noteq> Inr ()"
      and "gets (fst (fetch_html_loop net url m d (a # as))) = [url]"
      and "snd (fetch_html_loop net url m d (a # as)) = Inl x"
  | (retry) e where "fetch_html_try net url a = Inl (RequestException e)"
      and "gets (fst (fetch_html_loop net url m d (a # as))) =
             url # gets (fst (fetch_html_loop net url m d as))"
      and "snd (fetch_html_loop net url m d (a # as)) = snd (fetch_html_loop net url m d as)"
proof (cases "fetch_html_try net url a")
  case (Inr body)
  then show ?thesis by (intro ok fetch_html_loop_ok)
next
  case (Inl exc)
  show ?thesis
  proof (cases exc)
    case (OtherException e)
    with Inl have "fetch_html_try net url a = Inl (OtherException e)" by simp
    then show ?thesis by (intro other fetch_html_loop_other)
  next
    case (RequestException e)
    with Inl have t: "fetch_html_try net url a = Inl (RequestException e)" by simp
    show ?thesis
    proof (cases "print_attempt_failed url a m (RequestException e)")
      case (Inl x)
      with t have "fetch_html_loop net url m d (a # as) = ([Get url], Inl x)"
        by (intro fetch_html_loop_print_raises)
      with t Inl show ?thesis by (intro handler_raises [of e x]) simp_all
    next
      case (Inr line)
      show ?thesis
      proof (cases "a < m - 1 \<and> time_sleep d \<noteq> Inr ()")
        case True
        then obtain x where x: "time_sleep d = Inl x" by (cases "time_sleep d") auto
        with t Inr True have "fetch_html_loop net url m d (a # as) =
            ([Get url, Print_attempt_failed url (a + 1) m (RequestException e)], Inl x)"
          by (intro fetch_html_loop_sleep_raises) simp_all
        with t True show ?thesis by (intro handler_raises [of e x]) simp_all
      next
        case False
        then have "a < m - 1 \<longrightarrow> time_sleep d = Inr ()" by blast
        with t Inr show ?thesis by (intro retry [of e] fetch_html_loop_retry)
      qed
    qed
  qed
qed


lemma fetch_html_loop_gets_url:
  "set (gets (fst (fetch_html_loop net url m d as))) \<subseteq> {url}"
proof (induction as)
  case Nil
  show ?case by simp
next
  case (Cons a as)
  show ?case
  proof (cases rule: fetch_html_loop_turn [where net = net and url = url and a = a and m = m and d = d and as = as])
    case (ok body)
    then show ?thesis by (simp del: fetch_html_loop.simps)
  next
    case (other e)
    then show ?thesis by (simp del: fetch_html_loop.simps)
  next
    case (handler_raises e x)
    then show ?thesis by (simp del: fetch_html_loop.simps)
  next
    case (retry e)
    with Cons.IH show ?thesis by (simp del: fetch_html_loop.simps)
  qed
qed

lemma fetch_html_loop_gets_nonempty:
  "gets (fst (fetch_html_loop net url m d (a # as))) \<noteq> []"
proof (cases rule: fetch_html_loop_turn [where net = net and url = url and a = a and m = m and d = d and as = as])
  case (ok body)
  then show ?thesis by (simp del: fetch_html_loop.simps)
next
  case (other e)
  then show ?thesis by (simp del: fetch_html_loop.simps)
next
  case (handler_raises e x)
  then show ?thesis by (simp del: fetch_html_loop.simps)
next
  case (retry e)
  then show ?thesis by (simp del: fetch_html_loop.simps)
qed









lemma fetch_html_gets_set:
  assumes "0 < max_retries"
  shows "set (gets (fst (fetch_html net url max_retries retry_delay))) = {url}"
proof -
  from assms have eq: "[0..max_retries - 1] = 0 # [1..max_retries - 1]" by (simp add: upto_rec1)
  have "set (gets (fst (fetch_html net url max_retries retry_delay))) \<subseteq> {url}"
    by (simp add: fetch_html_def fetch_html_loop_gets_url del: fetch_html_loop.simps)
  moreover have "gets (fst (fetch_html net url max_retries retry_delay)) \<noteq> []"
    unfolding fetch_html_def eq by (rule fetch_html_loop_gets_nonempty)
  ultimately show ?thesis
    by (cases "gets (fst (fetch_html net url max_retries retry_delay))") auto
qed






section \<open>Properties of the extractor\<close>

lemma parse_news_returns: "\<exists>news_list. snd (parse_news parser html) = Inr news_list"
  by (cases "parse_news_try parser html") (simp_all add: parse_news_def)

lemma parse_news_gets: "gets (fst (parse_news parser html)) = []"
  by (cases "parse_news_try parser html") (simp_all add: parse_news_def)

lemma parse_news_loop_set:
  "(title, link) \<in> set (parse_news_loop news_list items) \<longleftrightarrow>
     (title, link) \<in> set news_list \<or>
     (\<exists>item a_tag. item \<in> set items \<and> find_a_c_title_link item = Some a_tag \<and>
        map_of (attrs a_tag) ''href'' = Some link \<and> title = get_text_strip a_tag)"
  by (induction items arbitrary: news_list) (auto split: option.splits)

lemma strings_set:
  "s \<in> set (strings ns) \<longleftrightarrow> NavigableString s \<in> set ns \<or> CData s \<in> set ns"
  by (induction ns rule: strings.induct) auto

lemma strip_empty_iff: "strip s = [] \<longleftrightarrow> (\<forall>c \<in> set s. is_space c)"
proof
  assume "strip s = []"
  then have all: "\<forall>c \<in> set (dropWhile is_space s). is_space c"
    by (simp add: strip_def dropWhile_eq_Nil_conv)
  have "dropWhile is_space s = []"
  proof (rule ccontr)
    assume ne: "dropWhile is_space s \<noteq> []"
    then have "\<not> is_space (hd (dropWhile is_space s))" by (rule hd_dropWhile)
    moreover from ne have "hd (dropWhile is_space s) \<in> set (dropWhile is_space s)" by simp
    ultimately show False using all by blast
  qed
  then show "\<forall>c \<in> set s. is_space c" by (simp add: dropWhile_eq_Nil_conv)
next
  assume "\<forall>c \<in> set s. is_space c"
  then have e: "dropWhile is_space s = []" by (simp add: dropWhile_eq_Nil_conv)
  show "strip s = []" unfolding strip_def e by simp
qed

lemma get_text_strip_nonempty_iff:
  "get_text_strip tag \<noteq> [] \<longleftrightarrow>
     (\<exists>s c. (NavigableString s \<in> set (descendants tag) \<or> CData s \<in> set (descendants tag)) \<and>
        c \<in> set s \<and> \<not> is_space c)"
proof -
  have "get_text_strip tag \<noteq> [] \<longleftrightarrow> (\<exists>s \<in> set (strings (descendants tag)). strip s \<noteq> [])"
    by (auto simp: get_text_strip_def)
  also have "\<dots> \<longleftrightarrow> (\<exists>s \<in> set (strings (descendants tag)). \<exists>c \<in> set s. \<not> is_space c)"
    by (simp add: strip_empty_iff)
  also have "\<dots> \<longleftrightarrow> (\<exists>s c. (NavigableString s \<in> set (descendants tag) \<or>
      CData s \<in> set (descendants tag)) \<and> c \<in> set s \<and> \<not> is_space c)"
    by (auto simp: strings_set)
  finally show ?thesis .
qed

text \<open>
  C7. Whenever the body of the \<open>try\<close> in \<open>parse_news\<close> raises (in particular when
  the parser raises), \<open>parse_news\<close> prints the exception and returns the empty list.
  In every case it returns a list: no exception reaches its caller.
\<close>

theorem parse_news_catches:
  "(\<forall>e. parse_news_try parser html = Inl e \<longrightarrow>
        parse_news parser html = ([Print_parse_error e], Inr [])) \<and>
   (\<forall>e. parser html = Inl e \<longrightarrow> parse_news parser html = ([Print_parse_error e], Inr [])) \<and>
   (\<exists>news_list. snd (parse_news parser html) = Inr news_list)"
proof (intro conjI allI impI)
  fix e assume "parse_news_try parser html = Inl e"
  then show "parse_news parser html = ([Print_parse_error e], Inr [])"
    by (simp add: parse_news_def)
next
  fix e assume "parser html = Inl e"
  then have "parse_news_try parser html = Inl e" by (simp add: parse_news_try_def)
  then show "parse_news parser html = ([Print_parse_error e], Inr [])"
    by (simp add: parse_news_def)
next
  show "\<exists>news_list. snd (parse_news parser html) = Inr news_list"
    by (rule parse_news_returns)
qed

theorem parse_news_catches_witness:
  "parse_news (\<lambda>html. Inl (OtherException ''RecursionError'')) ''<h3><h3><h3>'' =
     ([Print_parse_error (OtherException ''RecursionError'')], Inr [])"
  using parse_news_catches [of "\<lambda>html. Inl (OtherException ''RecursionError'')" "''<h3><h3><h3>''"]
  by simp


text \<open>
  C8, as the specification states it, fails: a link element with an \<open>href\<close> and no
  text gives an entry whose title is empty.  The document is
  \<^verbatim>\<open><h3 class=c-title><a class=c-title__link href=/x></a></h3>\<close>.
\<close>

theorem parse_news_empty_title:
  "snd (parse_news
          (\<lambda>html. Inr (Tag ''html'' [] []
             [Tag ''h3'' [''c-title''] []
                [Tag ''a'' [''c-title__link''] [(''href'', ''/x'')] []]]))
          ''<h3 class=c-title><a class=c-title__link href=/x></a></h3>'') = Inr [('''', ''/x'')]"
  by (simp add: parse_news_def parse_news_try_def select_h3_c_title_def
      find_a_c_title_link_def get_text_strip_def)

text \<open>
  C8, amended.  Every entry \<open>(title, link)\<close> that \<open>parse_news\<close> returns comes from
  a \<open>c-title__link\<close> element below a selected \<open>h3.c-title\<close> container: \<open>link\<close> is
  its \<open>href\<close> and \<open>title\<close> is its stripped text.  The title is non-empty exactly
  when the element holds, at any depth, a \<open>NavigableString\<close> or a \<open>CData\<close> section
  with a character that is not white space; comments, scripts, style sheets and the
  strings of the other classes do not count.
\<close>

theorem parse_news_title_is_link_text:
  assumes "snd (parse_news parser html) = Inr news_list"
    and "(title, link) \<in> set news_list"
  shows "\<exists>soup item a_tag.
           parser html = Inr soup \<and> item \<in> set (select_h3_c_title soup) \<and>
           find_a_c_title_link item = Some a_tag \<and>
           map_of (attrs a_tag) ''href'' = Some link \<and>
           title = get_text_strip a_tag \<and>
           (title \<noteq> [] \<longleftrightarrow>
              (\<exists>s c. (NavigableString s \<in> set (descendants a_tag) \<or>
                        CData s \<in> set (descendants a_tag)) \<and>
                     c \<in> set s \<and> \<not> is_space c))"
proof (cases "parser html")
  case (Inl e)
  then have "parse_news parser html = ([Print_parse_error e], Inr [])"
    by (simp add: parse_news_def parse_news_try_def)
  with assms show ?thesis by simp
next
  case (Inr soup)
  then have "snd (parse_news parser html) = Inr (parse_news_loop [] (select_h3_c_title soup))"
    by (simp add: parse_news_def parse_news_try_def)
  with assms have "(title, link) \<in> set (parse_news_loop [] (select_h3_c_title soup))" by simp
  then obtain item a_tag where found:
    "item \<in> set (select_h3_c_title soup)" "find_a_c_title_link item = Some a_tag"
    "map_of (attrs a_tag) ''href'' = Some link" "title = get_text_strip a_tag"
    by (auto simp: parse_news_loop_set)
  from found(4) have "title \<noteq> [] \<longleftrightarrow>
      (\<exists>s c. (NavigableString s \<in> set (descendants a_tag) \<or>
                CData s \<in> set (descendants a_tag)) \<and> c \<in> set s \<and> \<not> is_space c)"
    by (simp only: get_text_strip_nonempty_iff)
  with found Inr show ?thesis by blast
qed

theorem parse_news_title_is_link_text_witness:
  "snd (parse_news
          (\<lambda>html. Inr (Tag ''html'' [] []
             [Tag ''h3'' [''c-title''] []
                [Tag ''a'' [''c-title__link''] [(''href'', ''/x'')]
                   [NavigableString '' Hi'', OtherString ''secret'', NavigableString ''there  '']],
              Tag ''h3'' [''c-title''] []
                [Tag ''a'' [''c-title__link''] [(''href'', ''/y'')] [OtherString ''secret'']]]))
          ''<h3 class=c-title><a class=c-title__link href=/x> Hi<!--secret-->there  </a></h3><h3 class=c-title><a class=c-title__link href=/y><!--secret--></a></h3>'')
     = Inr [(''Hithere'', ''/x''), ('''', ''/y'')] \<and>
   (\<exists>soup item a_tag.
     (Inr (Tag ''html'' [] []
             [Tag ''h3'' [''c-title''] []
                [Tag ''a'' [''c-title__link''] [(''href'', ''/x'')]
                   [NavigableString '' Hi'', OtherString ''secret'', NavigableString ''there  '']],
              Tag ''h3'' [''c-title''] []
                [Tag ''a'' [''c-title__link''] [(''href'', ''/y'')] [OtherString ''secret'']]])
        :: exn + node) = Inr soup \<and>
     item \<in> set (select_h3_c_title soup) \<and>
     find_a_c_title_link item = Some a_tag \<and>
     map_of (attrs a_tag) ''href'' = Some ''/x'' \<and>
     ''Hithere'' = get_text_strip a_tag \<and>
     (''Hithere'' \<noteq> [] \<longleftrightarrow>
        (\<exists>s c. (NavigableString s \<in> set (descendants a_tag) \<or>
                  CData s \<in> set (descendants a_tag)) \<and>
               c \<in> set s \<and> \<not> is_space c)))"
proof -
  have run: "snd (parse_news
          (\<lambda>html. Inr (Tag ''html'' [] []
             [Tag ''h3'' [''c-title''] []
                [Tag ''a'' [''c-title__link''] [(''href'', ''/x'')]
                   [NavigableString '' Hi'', OtherString ''secret'', NavigableString ''there  '']],
              Tag ''h3'' [''c-title''] []
                [Tag ''a'' [''c-title__link''] [(''href'', ''/y'')] [OtherString ''secret'']]]))
          ''<h3 class=c-title><a class=c-title__link href=/x> Hi<!--secret-->there  </a></h3><h3 class=c-title><a class=c-title__link href=/y><!--secret--></a></h3>'')
     = Inr [(''Hithere'', ''/x''), ('''', ''/y'')]"
    by code_simp
  have mem: "(''Hithere'', ''/x'') \<in> set [(''Hithere'', ''/x''), ('''', ''/y'')]" by simp
  from run parse_news_title_is_link_text [OF run mem] show ?thesis by (rule conjI)
qed

section \<open>Properties of the page task\<close>

lemma page_url_first: "page_url 1 base_url = Inr base_url"
  by (simp add: page_url_def)

lemma page_url_below_limit:
  assumes "page \<noteq> 1" and "\<bar>page\<bar> < 10 ^ int_max_str_digits"
  shows "page_url page base_url =
           Inr (base_url @ ''page/'' @ (if page < 0 then ''-'' else '''') @ str_nat (nat \<bar>page\<bar>) @ ''/'')"
  using assms by (simp add: page_url_def str_int_below_limit)

lemma page_url_above_limit:
  assumes "page \<noteq> 1" and "10 ^ int_max_str_digits \<le> \<bar>page\<bar>"
  shows "page_url page base_url = Inl (OtherException ''ValueError'')"
  using assms by (simp add: page_url_def str_int_above_limit)


text \<open>The page task, once the URL is there.\<close>

lemma fetch_and_parse_page_raises_early:
  assumes "page_url page base_url = Inl e"
  shows "fetch_and_parse_page net parser page base_url = ([], Inl e)"
  using assms by (simp add: fetch_and_parse_page_def)

lemma fetch_and_parse_page_gets:
  assumes "page_url page base_url = Inr url"
  shows "set (gets (fst (fetch_and_parse_page net parser page base_url))) = {url}"
proof -
  have g: "set (gets (fst (fetch_html net url 3 2))) = {url}"
    by (rule fetch_html_gets_set) simp
  obtain evs r where f: "fetch_html net url 3 2 = (evs, r)"
    by (cases "fetch_html net url 3 2")
  with g have evs: "set (gets evs) = {url}" by simp
  have "gets (fst (fetch_and_parse_page net parser page base_url)) = gets evs"
  proof (cases r)
    case (Inl e)
    with f assms show ?thesis by (simp add: fetch_and_parse_page_def)
  next
    case (Inr h)
    show ?thesis
    proof (cases h)
      case None
      with f Inr assms show ?thesis by (simp add: fetch_and_parse_page_def)
    next
      case (Some html)
      obtain evs' r' where p: "parse_news parser html = (evs', r')"
        by (cases "parse_news parser html")
      with parse_news_gets [of parser html] have "gets evs' = []" by simp
      with f Inr Some p assms show ?thesis by (simp add: fetch_and_parse_page_def gets_append)
    qed
  qed
  with evs show ?thesis by simp
qed



text \<open>
  C3, as the specification states it, fails for a page number of more than 4300
  digits: the f-string raises \<open>ValueError\<close> and no request is sent.  The page is
  \<open>10 ^ 4300\<close>, the smallest such number.
\<close>

theorem fetch_and_parse_page_long_page:
  "fetch_and_parse_page (\<lambda>url attempt. Inr \<lparr>status_code = 200, resp_text = ''<html/>''\<rparr>)
     (\<lambda>html. Inr (Tag ''html'' [] [] [])) (10 ^ int_max_str_digits) ''https://x/'' =
   ([], Inl (OtherException ''ValueError'')) \<and> int_max_str_digits = 4300"
proof
  have limit: "(10::int) ^ int_max_str_digits \<le> \<bar>10 ^ int_max_str_digits\<bar>" by simp
  then have "(10::int) ^ int_max_str_digits \<noteq> 1" by (rule limit_not_one)
  then have "page_url (10 ^ int_max_str_digits) ''https://x/'' = Inl (OtherException ''ValueError'')"
    using limit by (rule page_url_above_limit)
  then show "fetch_and_parse_page (\<lambda>url attempt. Inr \<lparr>status_code = 200, resp_text = ''<html/>''\<rparr>)
     (\<lambda>html. Inr (Tag ''html'' [] [] [])) (10 ^ int_max_str_digits) ''https://x/'' =
   ([], Inl (OtherException ''ValueError''))"
    by (rule fetch_and_parse_page_raises_early)
  show "int_max_str_digits = 4300" by (rule int_max_str_digits_def)
qed

text \<open>
  C3, amended.  For page 1 every call of \<open>requests.get\<close> that the page task makes is
  for \<open>base_url\<close> itself, and it makes at least one.  For any other page of at most
  4300 digits every call is for \<open>base_url\<close> followed by \<open>page/\<close>, the page number in
  decimal and \<open>/\<close>, and it makes at least one; in decimal means a minus sign for a
  negative number and then digits, with no leading zero, whose value is the absolute
  value of the page.  For a page of more digits the task makes no call and raises
  \<open>ValueError\<close>.
\<close>

theorem fetch_and_parse_page_url:
  "(page = 1 \<longrightarrow>
      set (gets (fst (fetch_and_parse_page net parser page base_url))) = {base_url}) \<and>
   (page \<noteq> 1 \<and> \<bar>page\<bar> < 10 ^ int_max_str_digits \<longrightarrow>
      (\<exists>digits.
         set (gets (fst (fetch_and_parse_page net parser page base_url))) =
           {base_url @ ''page/'' @ (if page < 0 then ''-'' else '''') @ digits @ ''/''} \<and>
         digits \<noteq> [] \<and> set digits \<subseteq> set ''0123456789'' \<and>
         (hd digits = CHR ''0'' \<longrightarrow> digits = ''0'') \<and>
         foldl (\<lambda>acc c. 10 * acc + (of_char c - 48)) 0 digits = nat \<bar>page\<bar>)) \<and>
   (10 ^ int_max_str_digits \<le> \<bar>page\<bar> \<longrightarrow>
      fetch_and_parse_page net parser page base_url = ([], Inl (OtherException ''ValueError'')))"
proof (intro conjI impI)
  assume "page = 1"
  then have "page_url page base_url = Inr base_url" by (simp add: page_url_first)
  then show "set (gets (fst (fetch_and_parse_page net parser page base_url))) = {base_url}"
    by (rule fetch_and_parse_page_gets)
next
  assume a: "page \<noteq> 1 \<and> \<bar>page\<bar> < 10 ^ int_max_str_digits"
  let ?digits = "str_nat (nat \<bar>page\<bar>)"
  from a have "page_url page base_url =
      Inr (base_url @ ''page/'' @ (if page < 0 then ''-'' else '''') @ ?digits @ ''/'')"
    by (intro page_url_below_limit) simp_all
  then have "set (gets (fst (fetch_and_parse_page net parser page base_url))) =
      {base_url @ ''page/'' @ (if page < 0 then ''-'' else '''') @ ?digits @ ''/''}"
    by (rule fetch_and_parse_page_gets)
  moreover have "?digits \<noteq> []" by (rule str_nat_nonempty)
  moreover have "set ?digits \<subseteq> set ''0123456789''" by (rule str_nat_digits)
  moreover have "hd ?digits = CHR ''0'' \<longrightarrow> ?digits = ''0''"
    using str_nat_leading_zero by (rule impI)
  moreover have "foldl (\<lambda>acc c. 10 * acc + (of_char c - 48)) 0 ?digits = nat \<bar>page\<bar>"
    by (rule str_nat_decimal)
  ultimately show "\<exists>digits.
         set (gets (fst (fetch_and_parse_page net parser page base_url))) =
           {base_url @ ''page/'' @ (if page < 0 then ''-'' else '''') @ digits @ ''/''} \<and>
         digits \<noteq> [] \<and> set digits \<subseteq> set ''0123456789'' \<and>
         (hd digits = CHR ''0'' \<longrightarrow> digits = ''0'') \<and>
         foldl (\<lambda>acc c. 10 * acc + (of_char c - 48)) 0 digits = nat \<bar>page\<bar>"
    by blast
next
  assume limit: "10 ^ int_max_str_digits \<le> \<bar>page\<bar>"
  then have "page \<noteq> 1" by (rule limit_not_one)
  then have "page_url page base_url = Inl (OtherException ''ValueError'')"
    using limit by (rule page_url_above_limit)
  then show "fetch_and_parse_page net parser page base_url = ([], Inl (OtherException ''ValueError''))"
    by (rule fetch_and_parse_page_raises_early)
qed

theorem fetch_and_parse_page_url_witness:
  "set (gets (fst (fetch_and_parse_page (\<lambda>url attempt. Inl (RequestException ''timed out''))
          (\<lambda>html. Inr (Tag ''html'' [] [] [])) 1 ''https://x/''))) = {''https://x/''} \<and>
   set (gets (fst (fetch_and_parse_page (\<lambda>url attempt. Inl (RequestException ''timed out''))
          (\<lambda>html. Inr (Tag ''html'' [] [] [])) 5 ''https://x/''))) = {''https://x/page/5/''} \<and>
   set (gets (fst (fetch_and_parse_page (\<lambda>url attempt. Inl (RequestException ''timed out''))
          (\<lambda>html. Inr (Tag ''html'' [] [] [])) 100 ''https://x/''))) = {''https://x/page/100/''} \<and>
   set (gets (fst (fetch_and_parse_page (\<lambda>url attempt. Inl (RequestException ''timed out''))
          (\<lambda>html. Inr (Tag ''html'' [] [] [])) (- 12) ''https://x/''))) = {''https://x/page/-12/''} \<and>
   (\<exists>digits.
      set (gets (fst (fetch_and_parse_page (\<lambda>url attempt. Inl (RequestException ''timed out''))
          (\<lambda>html. Inr (Tag ''html'' [] [] [])) 5 ''https://x/''))) =
        {''https://x/'' @ ''page/'' @ (if (5::int) < 0 then ''-'' else '''') @ digits @ ''/''} \<and>
      digits \<noteq> [] \<and> set digits \<subseteq> set ''0123456789'' \<and>
      (hd digits = CHR ''0'' \<longrightarrow> digits = ''0'') \<and>
      foldl (\<lambda>acc c. 10 * acc + (of_char c - 48)) 0 digits = nat \<bar>5\<bar>)"
proof (intro conjI)
  from fetch_and_parse_page_url [where page = 1]
  show "set (gets (fst (fetch_and_parse_page (\<lambda>url attempt. Inl (RequestException ''timed out''))
          (\<lambda>html. Inr (Tag ''html'' [] [] [])) 1 ''https://x/''))) = {''https://x/''}"
    by blast
next
  have small: "\<bar>5::int\<bar> < 10 ^ int_max_str_digits" by (rule one_digit_below_limit) simp
  have "str_nat (nat \<bar>5\<bar>) = ''5''" by code_simp
  with small have "page_url 5 ''https://x/'' = Inr ''https://x/page/5/''"
    by (simp add: page_url_below_limit)
  then show "set (gets (fst (fetch_and_parse_page (\<lambda>url attempt. Inl (RequestException ''timed out''))
          (\<lambda>html. Inr (Tag ''html'' [] [] [])) 5 ''https://x/''))) = {''https://x/page/5/''}"
    by (rule fetch_and_parse_page_gets)
  have "\<bar>100::int\<bar> < 10 ^ int_max_str_digits"
    by (rule below_limit [where k = 3]) (simp_all add: int_max_str_digits_def)
  moreover have "str_nat (nat \<bar>100\<bar>) = ''100''" by code_simp
  ultimately have "page_url 100 ''https://x/'' = Inr ''https://x/page/100/''"
    by (simp add: page_url_below_limit)
  then show "set (gets (fst (fetch_and_parse_page (\<lambda>url attempt. Inl (RequestException ''timed out''))
          (\<lambda>html. Inr (Tag ''html'' [] [] [])) 100 ''https://x/''))) = {''https://x/page/100/''}"
    by (rule fetch_and_parse_page_gets)
  have "\<bar>- 12::int\<bar> < 10 ^ int_max_str_digits"
    by (rule below_limit [where k = 2]) (simp_all add: int_max_str_digits_def)
  moreover have "str_nat (nat \<bar>- 12\<bar>) = ''12''" by code_simp
  ultimately have "page_url (- 12) ''https://x/'' = Inr ''https://x/page/-12/''"
    by (simp add: page_url_below_limit)
  then show "set (gets (fst (fetch_and_parse_page (\<lambda>url attempt. Inl (RequestException ''timed out''))
          (\<lambda>html. Inr (Tag ''html'' [] [] [])) (- 12) ''https://x/''))) = {''https://x/page/-12/''}"
    by (rule fetch_and_parse_page_gets)
  have "(5::int) \<noteq> 1 \<and> \<bar>5::int\<bar> < 10 ^ int_max_str_digits" using small by simp
  with fetch_and_parse_page_url [where page = 5
      and net = "\<lambda>url attempt. Inl (RequestException ''timed out'')"
      and parser = "\<lambda>html. Inr (Tag ''html'' [] [] [])" and base_url = "''https://x/''"]
  show "\<exists>digits.
      set (gets (fst (fetch_and_parse_page (\<lambda>url attempt. Inl (RequestException ''timed out''))
          (\<lambda>html. Inr (Tag ''html'' [] [] [])) 5 ''https://x/''))) =
        {''https://x/'' @ ''page/'' @ (if (5::int) < 0 then ''-'' else '''') @ digits @ ''/''} \<and>
      digits \<noteq> [] \<and> set digits \<subseteq> set ''0123456789'' \<and>
      (hd digits = CHR ''0'' \<longrightarrow> digits = ''0'') \<and>
      foldl (\<lambda>acc c. 10 * acc + (of_char c - 48)) 0 digits = nat \<bar>5\<bar>"
    by blast
qed






section \<open>Properties of the orchestrator\<close>

lemma NEWS_URLs_differ: "NEWS_URL_CONSTANT \<noteq> NEWS_URL_1"
  by (simp add: NEWS_URL_CONSTANT_def NEWS_URL_1_def)

lemma length_worklist: "length (worklist start_page end_page) = 2 * nat (end_page - start_page + 1)"
  by (simp add: worklist_def)

lemma set_worklist:
  "set (worklist start_page end_page) = {start_page..end_page} \<times> {NEWS_URL_CONSTANT, NEWS_URL_1}"
  by (auto simp: worklist_def)

lemma distinct_worklist: "distinct (worklist start_page end_page)"
  using NEWS_URLs_differ by (auto simp: worklist_def distinct_map inj_on_def)

text \<open>
  C9. With the constants of the program (\<open>START_PAGE = 2\<close>, \<open>END_PAGE = 100\<close> and the
  two base URLs, which differ) the work list has 198 entries, no entry twice, and its
  entries are exactly the pairs of a page from 2 to 100 with one of the two base URLs.
  For each base URL the pages come in the order 2, 3, ..., 100.
\<close>

theorem urls_to_fetch_default:
  "length urls_to_fetch = 198 \<and> distinct urls_to_fetch \<and>
   set urls_to_fetch = {2..100} \<times> {NEWS_URL_CONSTANT, NEWS_URL_1} \<and>
   NEWS_URL_CONSTANT \<noteq> NEWS_URL_1 \<and>
   map fst (filter (\<lambda>(page, base_url). base_url = NEWS_URL_CONSTANT) urls_to_fetch) = [2..100] \<and>
   map fst (filter (\<lambda>(page, base_url). base_url = NEWS_URL_1) urls_to_fetch) = [2..100]"
proof (intro conjI)
  show "length urls_to_fetch = 198"
    by (simp add: urls_to_fetch_def length_worklist START_PAGE_def END_PAGE_def)
  show "distinct urls_to_fetch" by (simp add: urls_to_fetch_def distinct_worklist)
  show "set urls_to_fetch = {2..100} \<times> {NEWS_URL_CONSTANT, NEWS_URL_1}"
    by (simp add: urls_to_fetch_def set_worklist START_PAGE_def END_PAGE_def)
  show "NEWS_URL_CONSTANT \<noteq> NEWS_URL_1" by (rule NEWS_URLs_differ)
  show "map fst (filter (\<lambda>(page, base_url). base_url = NEWS_URL_CONSTANT) urls_to_fetch) = [2..100]"
    using NEWS_URLs_differ
    by (simp add: urls_to_fetch_def worklist_def START_PAGE_def END_PAGE_def filter_map comp_def)
  show "map fst (filter (\<lambda>(page, base_url). base_url = NEWS_URL_1) urls_to_fetch) = [2..100]"
    using NEWS_URLs_differ
    by (simp add: urls_to_fetch_def worklist_def START_PAGE_def END_PAGE_def filter_map comp_def)
qed

lemma collect_all_news:
  "all_news (collect st futures) =
     all_news st @
     concat (map (\<lambda>future. case snd future of Inr news_list \<Rightarrow> news_list | Inl exc \<Rightarrow> []) futures)"
  by (induction st futures rule: collect.induct) simp_all

lemma collect_pbar: "pbar (collect st futures) = pbar st + length futures"
  by (induction st futures rule: collect.induct) simp_all

lemma main_collect_all_news:
  "all_news (main_collect completed) =
     concat (map (\<lambda>future. case snd future of Inr news_list \<Rightarrow> news_list | Inl exc \<Rightarrow> []) completed)"
  by (simp add: main_collect_def collect_all_news)

lemma mset_concat_map_cong:
  assumes "mset xs = mset ys"
  shows "mset (concat (map g xs)) = mset (concat (map g ys))"
proof -
  have "mset (concat (map g xs)) = sum_mset (image_mset (\<lambda>x. mset (g x)) (mset xs))"
    by (simp add: mset_concat comp_def flip: sum_mset_sum_list)
  also have "\<dots> = sum_mset (image_mset (\<lambda>x. mset (g x)) (mset ys))"
    using assms by simp
  also have "\<dots> = mset (concat (map g ys))"
    by (simp add: mset_concat comp_def flip: sum_mset_sum_list)
  finally show ?thesis .
qed

lemma main_collect_mset:
  assumes "mset completed' = mset completed"
  shows "mset (all_news (main_collect completed')) = mset (all_news (main_collect completed))"
  unfolding main_collect_all_news using assms by (rule mset_concat_map_cong)

lemma submit_concat:
  assumes "\<forall>(page, base_url) \<in> set urls. task page base_url = Inr (entries page base_url)"
  shows "length (concat (map (\<lambda>future. case snd future of Inr news_list \<Rightarrow> news_list | Inl exc \<Rightarrow> [])
           (submit task urls))) = (\<Sum>(page, base_url) \<leftarrow> urls. length (entries page base_url))"
  using assms
proof (induction urls)
  case Nil
  show ?case by (simp add: submit_def)
next
  case (Cons u urls)
  obtain page base_url where u: "u = (page, base_url)" by (cases u)
  from Cons.prems u have t: "task page base_url = Inr (entries page base_url)" by simp
  from Cons.prems have "\<forall>(page, base_url) \<in> set urls. task page base_url = Inr (entries page base_url)"
    by simp
  then have IH: "length (concat (map (\<lambda>future. case snd future of Inr news_list \<Rightarrow> news_list | Inl exc \<Rightarrow> [])
           (submit task urls))) = (\<Sum>(page, base_url) \<leftarrow> urls. length (entries page base_url))"
    by (rule Cons.IH)
  have "submit task (u # urls) = ((page, base_url), task page base_url) # submit task urls"
    by (simp add: submit_def u)
  with t IH u show ?case by simp
qed

lemma sum_list_uniform:
  assumes "\<forall>(page, base_url) \<in> set urls. length (entries page base_url) = n"
  shows "(\<Sum>(page, base_url) \<leftarrow> urls. length (entries page base_url)) = n * length urls"
  using assms
proof (induction urls)
  case Nil
  show ?case by simp
next
  case (Cons u urls)
  obtain page base_url where u: "u = (page, base_url)" by (cases u)
  from Cons.prems u have "length (entries page base_url) = n" by simp
  moreover from Cons.prems
  have "(\<Sum>(page, base_url) \<leftarrow> urls. length (entries page base_url)) = n * length urls"
    by (intro Cons.IH) simp
  ultimately show ?case using u by simp
qed

text \<open>
  C1. Let the pool run \<open>task\<close> on the work list of any page range, let every task
  return a fixed list \<open>entries page base_url\<close>, and let \<open>completed\<close> be the futures
  in any order of completion (a permutation of the submitted ones).  Then the number of
  entries in \<open>all_news\<close> after the loop is the sum of the lengths of the lists the tasks
  returned; it is \<open>n\<close> times the number of page tasks when every list has \<open>n\<close>
  entries; and any other order of completion gives the same number, and the same
  entries up to their order.
\<close>

theorem main_collect_size:
  assumes perm: "mset completed = mset (submit task (worklist start_page end_page))"
    and fixed: "\<forall>(page, base_url) \<in> set (worklist start_page end_page).
                  task page base_url = Inr (entries page base_url)"
  shows "length (all_news (main_collect completed)) =
           (\<Sum>(page, base_url) \<leftarrow> worklist start_page end_page. length (entries page base_url)) \<and>
         ((\<forall>(page, base_url) \<in> set (worklist start_page end_page).
              length (entries page base_url) = n) \<longrightarrow>
            length (all_news (main_collect completed)) = n * (2 * nat (end_page - start_page + 1))) \<and>
         (\<forall>completed'. mset completed' = mset (submit task (worklist start_page end_page)) \<longrightarrow>
            length (all_news (main_collect completed')) = length (all_news (main_collect completed)) \<and>
            mset (all_news (main_collect completed')) = mset (all_news (main_collect completed)))"
proof -
  let ?urls = "worklist start_page end_page"
  have "mset (all_news (main_collect completed)) = mset (all_news (main_collect (submit task ?urls)))"
    using perm by (rule main_collect_mset)
  then have "length (all_news (main_collect completed)) =
      length (all_news (main_collect (submit task ?urls)))"
    by (rule mset_eq_length)
  also have "\<dots> = (\<Sum>(page, base_url) \<leftarrow> ?urls. length (entries page base_url))"
    unfolding main_collect_all_news using fixed by (rule submit_concat)
  finally have size: "length (all_news (main_collect completed)) =
      (\<Sum>(page, base_url) \<leftarrow> ?urls. length (entries page base_url))" .
  have uniform: "length (all_news (main_collect completed)) = n * (2 * nat (end_page - start_page + 1))"
    if "\<forall>(page, base_url) \<in> set ?urls. length (entries page base_url) = n"
  proof -
    have "(\<Sum>(page, base_url) \<leftarrow> ?urls. length (entries page base_url)) = n * length ?urls"
      using that by (rule sum_list_uniform)
    also have "length ?urls = 2 * nat (end_page - start_page + 1)"
      by (rule length_worklist)
    finally have "(\<Sum>(page, base_url) \<leftarrow> ?urls. length (entries page base_url)) =
        n * (2 * nat (end_page - start_page + 1))" .
    with size show ?thesis by (rule trans)
  qed
  have order: "length (all_news (main_collect completed')) = length (all_news (main_collect completed)) \<and>
      mset (all_news (main_collect completed')) = mset (all_news (main_collect completed))"
    if "mset completed' = mset (submit task ?urls)" for completed'
  proof -
    from that perm [symmetric] have "mset completed' = mset completed" by (rule trans)
    then have m: "mset (all_news (main_collect completed')) = mset (all_news (main_collect completed))"
      by (rule main_collect_mset)
    then have "length (all_news (main_collect completed')) = length (all_news (main_collect completed))"
      by (rule mset_eq_length)
    then show ?thesis using m by (rule conjI)
  qed
  show ?thesis
  proof (intro conjI)
    show "length (all_news (main_collect completed)) =
        (\<Sum>(page, base_url) \<leftarrow> ?urls. length (entries page base_url))"
      by (rule size)
    show "(\<forall>(page, base_url) \<in> set ?urls. length (entries page base_url) = n) \<longrightarrow>
        length (all_news (main_collect completed)) = n * (2 * nat (end_page - start_page + 1))"
      using uniform by (rule impI)
    show "\<forall>completed'. mset completed' = mset (submit task ?urls) \<longrightarrow>
        length (all_news (main_collect completed')) = length (all_news (main_collect completed)) \<and>
        mset (all_news (main_collect completed')) = mset (all_news (main_collect completed))"
      using order by (intro allI impI)
  qed
qed

theorem main_collect_size_witness:
  "length (all_news (main_collect (rev (submit
      (\<lambda>page base_url. Inr [(''first'', base_url), (''second'', base_url)]) (worklist 2 3))))) = 8"
proof -
  have perm: "mset (rev (submit
        (\<lambda>page base_url. Inr [(''first'', base_url), (''second'', base_url)]) (worklist 2 3))) =
      mset (submit (\<lambda>page base_url. Inr [(''first'', base_url), (''second'', base_url)])
        (worklist 2 3))"
    by (rule mset_rev)
  have fixed: "\<forall>(page, base_url) \<in> set (worklist 2 3).
      (Inr [(''first'', base_url), (''second'', base_url)] :: exn + news list) =
      Inr ((\<lambda>page base_url. [(''first'', base_url), (''second'', base_url)]) page base_url)"
    by (simp add: split_def)
  have two: "\<forall>(page, base_url) \<in> set (worklist 2 3).
      length ((\<lambda>page base_url. [(''first'', base_url), (''second'', base_url)]) page base_url) = 2"
    by (simp add: split_def)
  from main_collect_size [OF perm fixed, of 2] two
  have "length (all_news (main_collect (rev (submit
      (\<lambda>page base_url. Inr [(''first'', base_url), (''second'', base_url)]) (worklist 2 3))))) =
      2 * (2 * nat (3 - 2 + 1))"
    by (rule conjunct1 [OF conjunct2, THEN mp])
  then show ?thesis by simp
qed

end
